theory Spec2Isabelle
  imports Complex_Main
begin

section \<open>The bookmark scraper (bookmark-scraper-v2.js)\<close>

text \<open>
  A shallow embedding of the class \<open>TweetScraper\<close> and of the request interception that
  precedes it in \<open>src/bookmark-scraper-v2.js\<close>. JavaScript strings are modelled as
  \<open>string\<close>, arrays as lists, a \<open>Set\<close> as a duplicate-free list in insertion order (or as a
  HOL set where only membership is read), the \<open>Map\<close> \<open>mediaMap\<close> as a partial function.
  Heights, the batch size and the counters, which the code only compares and increments,
  are integers; the scroll step, which the code hands to \<open>window.scrollBy\<close> as it is and
  multiplied by three, is a JavaScript number, and its product by three is kept as a
  product (the multiplication of doubles rounds, and is not computed here). The DOM is not modelled: an article element is the tuple of what the
  code reads from it through \<open>querySelector\<close>, \<open>querySelectorAll\<close> and properties.
  Mutation of \<open>this\<close> is explicit state passing; what the code does to its host (scrolling,
  downloads, timers, the console) is appended to a trace in program order.
\<close>

subsection \<open>String operations\<close>

text \<open>\<open>s.startsWith(p)\<close>, \<open>s.includes(sub)\<close> and \<open>s.endsWith(suf)\<close>.\<close>

fun startsWith :: "string \<Rightarrow> string \<Rightarrow> bool" where
  "startsWith s [] = True"
| "startsWith [] (p # ps) = False"
| "startsWith (c # cs) (p # ps) = (c = p \<and> startsWith cs ps)"

fun str_includes :: "string \<Rightarrow> string \<Rightarrow> bool" where
  "str_includes [] sub = (sub = [])"
| "str_includes (c # cs) sub = (startsWith (c # cs) sub \<or> str_includes cs sub)"

definition endsWith :: "string \<Rightarrow> string \<Rightarrow> bool" where
  "endsWith s suf = startsWith (rev s) (rev suf)"

text \<open>\<open>s.split(c)\<close> for a one-character separator: never the empty array.\<close>

fun split_on :: "char \<Rightarrow> string \<Rightarrow> string list" where
  "split_on sep [] = [[]]"
| "split_on sep (c # cs) =
     (if c = sep then [] # split_on sep cs
      else (case split_on sep cs of
              [] \<Rightarrow> [[c]]
            | p # ps \<Rightarrow> (c # p) # ps))"

text \<open>The character class \<open>\d\<close> of a JavaScript regular expression: the ten ASCII digits.\<close>

definition is_digit :: "char \<Rightarrow> bool" where
  "is_digit c = (c \<in> set ''0123456789'')"

text \<open>
  \<open>(\d+)\/\<close> anchored at the start of \<open>r\<close>: the greedy digit run must be non-empty and
  followed by a slash (a shorter run is followed by a digit, so backtracking finds nothing
  more). The result is the capture group.
\<close>

definition digits_slash :: "string \<Rightarrow> string option" where
  "digits_slash r =
     (let ds = takeWhile is_digit r in
      if ds \<noteq> [] \<and> startsWith (dropWhile is_digit r) ''/'' then Some ds else None)"

text \<open>
  \<open>s.match(/LIT(\d+)\//)\<close> for a literal \<open>LIT\<close>: the leftmost position where the pattern
  matches; \<open>None\<close> is \<open>null\<close>, \<open>Some ds\<close> is a match whose group 1 is \<open>ds\<close>.
\<close>

fun match_media_id :: "string \<Rightarrow> string \<Rightarrow> string option" where
  "match_media_id lit [] = None"
| "match_media_id lit (c # cs) =
     (case (if startsWith (c # cs) lit then digits_slash (drop (length lit) (c # cs)) else None) of
        Some ds \<Rightarrow> Some ds
      | None \<Rightarrow> match_media_id lit cs)"

text \<open>
  \<open>style.backgroundImage.match(/url\("?(.+?)"?\)/)\<close>. The dot excludes line terminators
  (of which \<open>char\<close> has the line feed and the carriage return). \<open>lazy_capture cap rest\<close> is
  the lazy group having consumed \<open>cap\<close>: it stops as soon as an optional quote and a closing
  parenthesis follow, and takes one more character otherwise.
\<close>

definition is_line_terminator :: "char \<Rightarrow> bool" where
  "is_line_terminator c = (c = CHR 0x0A \<or> c = CHR 0x0D)"

fun lazy_capture :: "string \<Rightarrow> string \<Rightarrow> string option" where
  "lazy_capture cap [] = None"
| "lazy_capture cap (c # cs) =
     (if startsWith (c # cs) [CHR 0x22, CHR '')''] \<or> c = CHR '')'' then Some cap
      else if is_line_terminator c then None
      else lazy_capture (cap @ [c]) cs)"

definition capture_from :: "string \<Rightarrow> string option" where
  "capture_from r =
     (case r of
        [] \<Rightarrow> None
      | c # cs \<Rightarrow> if is_line_terminator c then None else lazy_capture [c] cs)"

definition match_url_at :: "string \<Rightarrow> string option" where
  "match_url_at s =
     (if startsWith s ''url('' then
        (let r = drop 4 s in
         case (if startsWith r [CHR 0x22] then capture_from (tl r) else None) of
           Some u \<Rightarrow> Some u
         | None \<Rightarrow> capture_from r)
      else None)"

fun match_bg_url :: "string \<Rightarrow> string option" where
  "match_bg_url [] = None"
| "match_bg_url (c # cs) =
     (case match_url_at (c # cs) of
        Some u \<Rightarrow> Some u
      | None \<Rightarrow> match_bg_url cs)"

text \<open>\<open>set.add(x)\<close> on a \<open>Set\<close> kept as the list of its members in insertion order.\<close>

definition set_add :: "'a list \<Rightarrow> 'a \<Rightarrow> 'a list" where
  "set_add xs x = (if x \<in> set xs then xs else xs @ [x])"

definition new_Set :: "'a list \<Rightarrow> 'a list" where
  "new_Set xs = fold (\<lambda>x acc. set_add acc x) xs []"

subsection \<open>What the code reads from an article element\<close>

text \<open>
  An ancestor of the \<open><time>\<close> element is an anchor with its \<open>href\<close> property (the empty
  string when the attribute is missing) or another element, whose \<open>href\<close> is undefined.
\<close>

datatype node = Anchor string | Other

record time_el =
  time_datetime :: "string option"
  time_ancestors :: "node list"

text \<open>
  The counters of \<open>extractInteractionData\<close> are read from the element as they are: the
  parser of the labels works on floating-point numbers and no property below depends on it.
\<close>

record interaction_counts =
  replies :: int
  reposts :: int
  likes :: int
  bookmarks :: int
  views :: int

record element =
  el_userName :: "string option"
  el_time :: "time_el option"
  el_tweetText :: "string option"
  el_interaction :: interaction_counts
  el_statusLinks :: "string list"
  el_imgSrcs :: "string list"
  el_bgImages :: "string list"
  el_videoSrcs :: "string list"

text \<open>
  \<open>el_statusLinks\<close> are the \<open>href\<close> properties of \<open>querySelectorAll('a[href*="/status/"]')\<close>
  in document order, \<open>el_imgSrcs\<close> the \<open>src\<close> properties of the image nodes,
  \<open>el_bgImages\<close> the \<open>style.backgroundImage\<close> of the background nodes, \<open>el_videoSrcs\<close> the
  \<open>src\<close> of \<open>video > source[src]\<close>.
\<close>

record tweet =
  tweetId :: string
  authorName :: "string option"
  tweetText :: "string option"
  timeISO :: "string option"
  postUrl :: string
  interaction :: interaction_counts
  images :: "string list"
  videos :: "string list"

subsection \<open>Effects on the host\<close>

text \<open>
  A JavaScript number: a finite double, which is a real number (the two zeros are one
  here), an infinity or \<open>NaN\<close>. The second argument of \<open>window.scrollBy\<close> is either the
  number \<open>this.scrollStep\<close> or the double \<open>this.scrollStep * 3\<close>: \<open>Times x y\<close> stands for
  the product \<open>x * y\<close> as the host computes it on doubles, which is the real product
  rounded to a double.
\<close>

datatype js_number = Finite real | PosInfinity | NegInfinity | NaN

datatype amount = Step js_number | Times js_number js_number

datatype message =
    Stashed string string
  | FoundCaptured nat string string
  | Captured string nat
  | ReachedStop string
  | ScraperStopped

datatype effect =
    ScrollBy amount
  | Download "tweet list"
  | ConsoleError "tweet list"
  | ClearInterval
  | Disconnect
  | HudRemove
  | ConsoleLog message

text \<open>
  \<open>Download b\<close> is a completed \<open>downloadTweetsAsJson(b)\<close>; \<open>ConsoleError b\<close> is one whose
  \<open>try\<close> block threw, caught and reported by \<open>console.error\<close>.
\<close>

record scraper =
  scrollIntervalMs :: int
  scrollStep :: js_number
  batchSize :: int
  stopAtTweetId :: "string option"
  skipTweetIds :: "string list"
  tweets :: "tweet list"
  processedTweetIds :: "string set"
  batchIndex :: nat
  stuckCount :: nat
  previousHeight :: int
  mediaMap :: "string \<rightharpoonup> string list"
  scrollTimer :: bool
  observing :: bool
  hudShown :: bool
  trace :: "effect list"

text \<open>
  \<open>mediaMap\<close> is the module-level map of the source, kept in the same state; \<open>scrollTimer\<close>,
  \<open>observing\<close> and \<open>hudShown\<close> say whether the interval, the mutation observer and the
  status element are live. The text of the status element is not modelled.
\<close>

subsection \<open>Request interception\<close>

text \<open>\<open>mediaMap.get(mediaId) || []\<close>: a stored array is truthy, a missing key gives the empty one.\<close>

definition get_or_empty :: "(string \<rightharpoonup> string list) \<Rightarrow> string \<Rightarrow> string list" where
  "get_or_empty mm mediaId = (case mm mediaId of None \<Rightarrow> [] | Some us \<Rightarrow> us)"

definition stash :: "string \<Rightarrow> scraper \<Rightarrow> scraper" where
  "stash url s =
     (case match_media_id ''ext_tw_video/'' url of
        None \<Rightarrow> s
      | Some mediaId \<Rightarrow>
          s\<lparr>mediaMap := (mediaMap s)(mediaId \<mapsto>
               get_or_empty (mediaMap s) mediaId @ [url]),
            trace := trace s @ [ConsoleLog (Stashed mediaId url)]\<rparr>)"

text \<open>
  The patched \<open>fetch\<close> and \<open>XMLHttpRequest.prototype.open\<close>, for a request whose URL
  reaches them as the string \<open>url\<close>.
\<close>

definition on_request :: "string \<Rightarrow> scraper \<Rightarrow> scraper" where
  "on_request url s = (if str_includes url ''video.twimg.com'' then stash url s else s)"

subsection \<open>Extraction\<close>

definition extractTweetId :: "element \<Rightarrow> string option" where
  "extractTweetId tweetEl =
     (case el_time tweetEl of
        None \<Rightarrow> None
      | Some t \<Rightarrow>
          (case time_ancestors t of
             [] \<Rightarrow> None
           | Other # _ \<Rightarrow> None
           | Anchor href # _ \<Rightarrow>
               if href = [] then None
               else
                 (let parts = split_on CHR ''/'' href;
                      candidate = hd (split_on CHR ''?'' (last parts))
                  in if candidate \<noteq> [] \<and> list_all is_digit candidate
                     then Some candidate else None)))"

record media =
  m_images :: "string list"
  m_videos :: "string list"
  m_thumbnails :: "string list"

text \<open>
  The body shared by the two \<open>forEach\<close> loops of \<open>extractMedia\<close>, on the pair
  (\<open>imageSources\<close>, \<open>thumbnailSources\<close>).
\<close>

definition classify :: "string \<Rightarrow> string list \<times> string list \<Rightarrow> string list \<times> string list" where
  "classify url acc =
     (if url = [] then acc
      else if str_includes url ''ext_tw_video_thumb'' then (fst acc, set_add (snd acc) url)
      else if str_includes url ''pbs.twimg.com/media'' then (set_add (fst acc) url, snd acc)
      else acc)"

definition classify_bg :: "string \<Rightarrow> string list \<times> string list \<Rightarrow> string list \<times> string list" where
  "classify_bg bg acc =
     (case match_bg_url bg of
        None \<Rightarrow> acc
      | Some url \<Rightarrow> classify url acc)"

definition extractMedia :: "element \<Rightarrow> media" where
  "extractMedia rootEl =
     (let acc = fold classify_bg (el_bgImages rootEl) (fold classify (el_imgSrcs rootEl) ([], []))
      in \<lparr>m_images = fst acc, m_videos = new_Set (el_videoSrcs rootEl), m_thumbnails = snd acc\<rparr>)"

text \<open>The loop over the thumbnails in \<open>extractTweetData\<close>: the video set and the log.\<close>

definition correlate :: "(string \<rightharpoonup> string list) \<Rightarrow> string \<Rightarrow>
    string list \<times> effect list \<Rightarrow> string list \<times> effect list" where
  "correlate mm thumbUrl acc =
     (case match_media_id ''ext_tw_video_thumb/'' thumbUrl of
        None \<Rightarrow> acc
      | Some mediaId \<Rightarrow>
          if mediaId = [] then acc
          else
            (let capturedUrls = get_or_empty mm mediaId in
             if capturedUrls \<noteq> [] then
               (fold (\<lambda>u vs. set_add vs u) capturedUrls (fst acc),
                snd acc @ [ConsoleLog (FoundCaptured (length capturedUrls) mediaId thumbUrl)])
             else acc))"

text \<open>\<open>el.querySelector("time")?.closest("a")?.href\<close>: the nearest anchor above the time element.\<close>

fun closest_anchor :: "node list \<Rightarrow> string option" where
  "closest_anchor [] = None"
| "closest_anchor (Anchor href # ns) = Some href"
| "closest_anchor (Other # ns) = closest_anchor ns"

definition timeLink :: "element \<Rightarrow> string option" where
  "timeLink el = (case el_time el of None \<Rightarrow> None | Some t \<Rightarrow> closest_anchor (time_ancestors t))"

definition genericLink :: "element \<Rightarrow> string" where
  "genericLink el = (case el_statusLinks el of [] \<Rightarrow> [] | h # _ \<Rightarrow> h)"

definition resolvePostUrl :: "element \<Rightarrow> string \<Rightarrow> string" where
  "resolvePostUrl el tid =
     (let found = (case find (\<lambda>h. endsWith h (CHR ''/'' # tid)) (el_statusLinks el) of
                     Some h \<Rightarrow> h
                   | None \<Rightarrow> [])
      in if found = [] then
           (case timeLink el of
              Some h \<Rightarrow> if str_includes h (''/status/'' @ tid) then h else genericLink el
            | None \<Rightarrow> genericLink el)
         else found)"

definition extractTweetData ::
    "(string \<rightharpoonup> string list) \<Rightarrow> element \<Rightarrow> string \<Rightarrow> (tweet \<times> effect list) option" where
  "extractTweetData mm el tid =
     (case el_time el of
        None \<Rightarrow> None
      | Some timeEl \<Rightarrow>
          (let m = extractMedia el;
               fin = fold (correlate mm) (m_thumbnails m) (new_Set (m_videos m), [])
           in Some (\<lparr>tweetId = tid, authorName = el_userName el, tweetText = el_tweetText el,
                     timeISO = time_datetime timeEl, postUrl = resolvePostUrl el tid,
                     interaction = el_interaction el, images = m_images m,
                     videos = fst fin\<rparr>, snd fin)))"

subsection \<open>Flush, teardown, reconciliation, scrolling\<close>

text \<open>
  The export sink is a parameter: \<open>sink b\<close> says whether the \<open>try\<close> block of
  \<open>downloadTweetsAsJson\<close> completes on the batch \<open>b\<close>. The function returns nothing and
  throws nothing in either case.
\<close>

definition downloadTweetsAsJson :: "(tweet list \<Rightarrow> bool) \<Rightarrow> tweet list \<Rightarrow> scraper \<Rightarrow> scraper" where
  "downloadTweetsAsJson sink tweetsArray s =
     s\<lparr>trace := trace s @ [if sink tweetsArray then Download tweetsArray
                           else ConsoleError tweetsArray]\<rparr>"

definition cleanup :: "(tweet list \<Rightarrow> bool) \<Rightarrow> scraper \<Rightarrow> scraper" where
  "cleanup sink s =
     (let s1 = (if tweets s \<noteq> [] then downloadTweetsAsJson sink (tweets s) s else s);
          s2 = s1\<lparr>scrollTimer := False, trace := trace s1 @ [ClearInterval]\<rparr>;
          s3 = s2\<lparr>observing := False, trace := trace s2 @ [Disconnect]\<rparr>;
          s4 = s3\<lparr>hudShown := False, trace := trace s3 @ [HudRemove]\<rparr>
      in s4\<lparr>trace := trace s4 @ [ConsoleLog ScraperStopped]\<rparr>)"

text \<open>
  In \<open>cleanup\<close> the tests \<open>if (this.observer)\<close> and \<open>this.hud?.\<close> always succeed, the
  constructor having set both fields; clearing a cleared interval, disconnecting a
  disconnected observer and removing a removed element do nothing and throw nothing.
\<close>

text \<open>The two assignments of the late-media branch, on the record found.\<close>

definition late_media :: "media \<Rightarrow> tweet \<Rightarrow> tweet" where
  "late_media m already =
     (let a1 = (if m_images m \<noteq> [] \<and> images already = []
                then already\<lparr>images := m_images m\<rparr> else already)
      in if m_videos m \<noteq> [] \<and> videos a1 = [] then a1\<lparr>videos := m_videos m\<rparr> else a1)"

fun update_first :: "('a \<Rightarrow> bool) \<Rightarrow> ('a \<Rightarrow> 'a) \<Rightarrow> 'a list \<Rightarrow> 'a list" where
  "update_first P f [] = []"
| "update_first P f (x # xs) = (if P x then f x # xs else x # update_first P f xs)"

text \<open>
  The body of the \<open>for\<close> loop of \<open>updateTweets\<close> on one element; \<open>seeded\<close> says that
  \<open>seedEls\<close> was given. \<open>Return\<close> is the \<open>return\<close> after \<open>cleanup\<close>, \<open>Continue\<close> is
  \<open>continue\<close> or the end of the body.
\<close>

datatype flow = Continue | Return

definition updateTweets_body ::
    "(tweet list \<Rightarrow> bool) \<Rightarrow> bool \<Rightarrow> element \<Rightarrow> scraper \<Rightarrow> flow \<times> scraper" where
  "updateTweets_body sink seeded el s =
     (case extractTweetId el of
        None \<Rightarrow> (Continue, s)
      | Some tid \<Rightarrow>
          if tid \<in> processedTweetIds s then
            (case find (\<lambda>t. tweetId t = tid) (tweets s) of
               None \<Rightarrow> (Continue, s)
             | Some already \<Rightarrow>
                 if seeded then
                   (Continue,
                    s\<lparr>tweets := update_first (\<lambda>t. tweetId t = tid)
                                  (late_media (extractMedia el)) (tweets s)\<rparr>)
                 else (Continue, s))
          else if Some tid = stopAtTweetId s then
            (Return, cleanup sink (s\<lparr>trace := trace s @ [ConsoleLog (ReachedStop tid)]\<rparr>))
          else
            (case extractTweetData (mediaMap s) el tid of
               None \<Rightarrow> (Continue, s)
             | Some (tweetData, logs) \<Rightarrow>
                 (Continue,
                  s\<lparr>processedTweetIds := insert tid (processedTweetIds s),
                    tweets := tweets s @ [tweetData],
                    trace := trace s @ logs @
                      [ConsoleLog (Captured tid (Suc (length (tweets s))))]\<rparr>)))"

fun updateTweets_loop ::
    "(tweet list \<Rightarrow> bool) \<Rightarrow> bool \<Rightarrow> element list \<Rightarrow> scraper \<Rightarrow> scraper" where
  "updateTweets_loop sink seeded [] s = s"
| "updateTweets_loop sink seeded (el # els) s =
     (case updateTweets_body sink seeded el s of
        (Return, s') \<Rightarrow> s'
      | (Continue, s') \<Rightarrow> updateTweets_loop sink seeded els s')"

text \<open>
  \<open>updateTweets(seedEls)\<close>: \<open>doc\<close> is what \<open>document.querySelectorAll\<close> would return, used
  when no seed is given (an array, even an empty one, is truthy).
\<close>

definition updateTweets ::
    "(tweet list \<Rightarrow> bool) \<Rightarrow> element list option \<Rightarrow> element list \<Rightarrow> scraper \<Rightarrow> scraper" where
  "updateTweets sink seedEls doc s =
     (case seedEls of
        None \<Rightarrow> updateTweets_loop sink False doc s
      | Some els \<Rightarrow> updateTweets_loop sink True els s)"

text \<open>
  One run of the interval callback of \<open>initScroll\<close>; \<open>currentHeight\<close> is
  \<open>document.documentElement.scrollHeight\<close>, read before the scroll.
\<close>

definition scroll_tick :: "(tweet list \<Rightarrow> bool) \<Rightarrow> int \<Rightarrow> scraper \<Rightarrow> scraper" where
  "scroll_tick sink currentHeight s =
     (let s1 = s\<lparr>trace := trace s @ [ScrollBy (Step (scrollStep s))]\<rparr>;
          s2 = (if currentHeight = previousHeight s1 then
                  (let s' = s1\<lparr>stuckCount := stuckCount s1 + 1\<rparr> in
                   if stuckCount s' \<ge> 3 then
                     s'\<lparr>trace := trace s' @ [ScrollBy (Times (scrollStep s') (Finite 3))], stuckCount := 0\<rparr>
                   else s')
                else s1\<lparr>stuckCount := 0\<rparr>);
          s3 = s2\<lparr>previousHeight := currentHeight\<rparr>
      in if int (length (tweets s3)) \<ge> batchSize s3 then
           (downloadTweetsAsJson sink (tweets s3) s3)\<lparr>tweets := [], batchIndex := batchIndex s3 + 1\<rparr>
         else s3)"

subsection \<open>Construction and sessions\<close>

record options =
  opt_scrollIntervalMs :: "int option"
  opt_scrollStep :: "js_number option"
  opt_batchSize :: "int option"
  opt_stopAtTweetId :: "string option"
  opt_skipTweetIds :: "string list option"

text \<open>\<open>options.x || d\<close> on an integer and on a string: zero and the empty string are falsy.\<close>

definition num_or :: "int option \<Rightarrow> int \<Rightarrow> int" where
  "num_or v d = (case v of None \<Rightarrow> d | Some n \<Rightarrow> if n = 0 then d else n)"

text \<open>The same on a JavaScript number: zero and \<open>NaN\<close> are falsy, an infinity is not.\<close>

definition js_num_or :: "js_number option \<Rightarrow> js_number \<Rightarrow> js_number" where
  "js_num_or v d =
     (case v of None \<Rightarrow> d | Some n \<Rightarrow> if n = Finite 0 \<or> n = NaN then d else n)"

definition str_or_null :: "string option \<Rightarrow> string option" where
  "str_or_null v = (case v of None \<Rightarrow> None | Some x \<Rightarrow> if x = [] then None else Some x)"

definition new_TweetScraper ::
    "(tweet list \<Rightarrow> bool) \<Rightarrow> options \<Rightarrow> (string \<rightharpoonup> string list) \<Rightarrow> element list \<Rightarrow> scraper" where
  "new_TweetScraper sink opts mm doc =
     (let skip = new_Set (case opt_skipTweetIds opts of None \<Rightarrow> [] | Some ids \<Rightarrow> ids) in
      updateTweets sink None doc
        \<lparr>scrollIntervalMs = num_or (opt_scrollIntervalMs opts) 1000,
         scrollStep = js_num_or (opt_scrollStep opts) (Finite 800),
         batchSize = num_or (opt_batchSize opts) 100,
         stopAtTweetId = str_or_null (opt_stopAtTweetId opts),
         skipTweetIds = skip,
         tweets = [],
         processedTweetIds = set skip,
         batchIndex = 0,
         stuckCount = 0,
         previousHeight = 0,
         mediaMap = mm,
         scrollTimer = True,
         observing = True,
         hudShown = True,
         trace = []\<rparr>)"

text \<open>
  What can happen to a scraper after construction: a call of \<open>updateTweets()\<close> on the
  articles of the document, the observer's \<open>updateTweets([art])\<close> for an added node, a run
  of the interval callback, an outbound request, a call of \<open>cleanup()\<close>. The events do not
  depend on the timer or the observer being live, so every session of the program is a run.
\<close>

datatype event =
    FullScan "element list"
  | Mutated element
  | Tick int
  | Request string
  | Stop

fun step :: "(tweet list \<Rightarrow> bool) \<Rightarrow> event \<Rightarrow> scraper \<Rightarrow> scraper" where
  "step sink (FullScan doc) s = updateTweets sink None doc s"
| "step sink (Mutated art) s = updateTweets sink (Some [art]) [] s"
| "step sink (Tick h) s = scroll_tick sink h s"
| "step sink (Request url) s = on_request url s"
| "step sink Stop s = cleanup sink s"

definition run :: "(tweet list \<Rightarrow> bool) \<Rightarrow> event list \<Rightarrow> scraper \<Rightarrow> scraper" where
  "run sink evs s = fold (step sink) evs s"

subsection \<open>Observations on traces and elements\<close>


text \<open>
  The batches handed to \<open>downloadTweetsAsJson\<close> in a trace, whether the export completed
  or not, and the identifiers of the \<open>Captured tweet\<close> lines, one for every record pushed.
\<close>

fun flushes :: "effect list \<Rightarrow> tweet list list" where
  "flushes [] = []"
| "flushes (Download b # es) = b # flushes es"
| "flushes (ConsoleError b # es) = b # flushes es"
| "flushes (e # es) = flushes es"

fun captured :: "effect list \<Rightarrow> string list" where
  "captured [] = []"
| "captured (ConsoleLog (Captured tid n) # es) = tid # captured es"
| "captured (e # es) = captured es"

text \<open>A record without its two media fields.\<close>

definition core :: "tweet \<Rightarrow> tweet" where
  "core t = t\<lparr>images := [], videos := []\<rparr>"

text \<open>
  The URLs that the two loops of \<open>extractMedia\<close> look at: the \<open>src\<close> of every image node,
  then the URL matched in every background image.
\<close>

definition collected :: "element \<Rightarrow> string list" where
  "collected rootEl = el_imgSrcs rootEl @ List.map_filter match_bg_url (el_bgImages rootEl)"

subsection \<open>Example data\<close>

definition no_counts :: interaction_counts where
  "no_counts = \<lparr>replies = 0, reposts = 0, likes = 0, bookmarks = 0, views = 0\<rparr>"

text \<open>
  An article with the identifier 42 that shows a video thumbnail (media identifier 7), a
  photo and an emoji.
\<close>

definition demo_article :: element where
  "demo_article =
     \<lparr>el_userName = Some ''u'',
      el_time = Some \<lparr>time_datetime = Some ''2025'', time_ancestors = [Anchor ''x.com/u/status/42'']\<rparr>,
      el_tweetText = Some ''hi'',
      el_interaction = no_counts,
      el_statusLinks = [''x.com/u/status/42''],
      el_imgSrcs = [''pbs.twimg.com/ext_tw_video_thumb/7/pu/a.jpg'', ''pbs.twimg.com/media/b.jpg'',
                    ''abs.twimg.com/c.svg''],
      el_bgImages = [],
      el_videoSrcs = []\<rparr>"

definition demo_scraper :: scraper where
  "demo_scraper =
     \<lparr>scrollIntervalMs = 1000, scrollStep = Finite 800, batchSize = 100, stopAtTweetId = None,
      skipTweetIds = [], tweets = [], processedTweetIds = {}, batchIndex = 0, stuckCount = 0,
      previousHeight = 0, mediaMap = Map.empty, scrollTimer = True, observing = True,
      hudShown = True, trace = []\<rparr>"

text \<open>A batch size of one, so that the first tick after a capture flushes.\<close>

definition demo_options :: options where
  "demo_options = \<lparr>opt_scrollIntervalMs = None, opt_scrollStep = None, opt_batchSize = Some 1,
     opt_stopAtTweetId = None, opt_skipTweetIds = None\<rparr>"

text \<open>The record extracted from \<open>demo_article\<close> while nothing has been intercepted.\<close>

definition demo_tweet :: tweet where
  "demo_tweet = \<lparr>tweetId = ''42'', authorName = Some ''u'', tweetText = Some ''hi'',
     timeISO = Some ''2025'', postUrl = ''x.com/u/status/42'', interaction = no_counts,
     images = [''pbs.twimg.com/media/b.jpg''], videos = []\<rparr>"

text \<open>
  A bare article with the identifier 43, the record extracted from it, and options that
  stop there.
\<close>

definition other_article :: element where
  "other_article =
     \<lparr>el_userName = None,
      el_time = Some \<lparr>time_datetime = None, time_ancestors = [Anchor ''x.com/u/status/43'']\<rparr>,
      el_tweetText = None, el_interaction = no_counts, el_statusLinks = [''x.com/u/status/43''],
      el_imgSrcs = [], el_bgImages = [], el_videoSrcs = []\<rparr>"

definition other_tweet :: tweet where
  "other_tweet = \<lparr>tweetId = ''43'', authorName = None, tweetText = None, timeISO = None,
     postUrl = ''x.com/u/status/43'', interaction = no_counts, images = [], videos = []\<rparr>"

definition stop_options :: options where
  "stop_options = \<lparr>opt_scrollIntervalMs = None, opt_scrollStep = None, opt_batchSize = None,
     opt_stopAtTweetId = Some ''43'', opt_skipTweetIds = None\<rparr>"

text \<open>Options that skip the identifier 42.\<close>

definition skip_options :: options where
  "skip_options = \<lparr>opt_scrollIntervalMs = None, opt_scrollStep = None, opt_batchSize = Some 1,
     opt_stopAtTweetId = None, opt_skipTweetIds = Some [''42'']\<rparr>"

text \<open>A bare article with the given status links and the given elements above its time element.\<close>

definition link_article :: "string list \<Rightarrow> node list \<Rightarrow> element" where
  "link_article links ancestors =
     \<lparr>el_userName = None,
      el_time = Some \<lparr>time_datetime = None, time_ancestors = ancestors\<rparr>,
      el_tweetText = None, el_interaction = no_counts, el_statusLinks = links,
      el_imgSrcs = [], el_bgImages = [], el_videoSrcs = []\<rparr>"

section \<open>Properties\<close>

subsection \<open>Strings and sets\<close>

lemma startsWith_iff: "startsWith s p \<longleftrightarrow> (\<exists>r. s = p @ r)"
  by (induction s p rule: startsWith.induct) auto

lemma endsWith_iff: "endsWith s suf \<longleftrightarrow> (\<exists>r. s = r @ suf)"
proof -
  have "endsWith s suf \<longleftrightarrow> (\<exists>r. rev s = rev suf @ r)"
    by (simp add: endsWith_def startsWith_iff)
  also have "\<dots> \<longleftrightarrow> (\<exists>r. s = r @ suf)"
    by (metis rev_append rev_rev_ident)
  finally show ?thesis .
qed

lemma set_add_set: "set (set_add xs x) = insert x (set xs)"
  by (auto simp: set_add_def)


lemma str_includes_iff: "str_includes s sub \<longleftrightarrow> (\<exists>a b. s = a @ sub @ b)"
proof (induction s)
  case Nil
  then show ?case by auto
next
  case (Cons c cs)
  have "(\<exists>a b. c # cs = a @ sub @ b) \<longleftrightarrow>
        (\<exists>b. c # cs = sub @ b) \<or> (\<exists>a b. cs = a @ sub @ b)"
  proof
    assume "\<exists>a b. c # cs = a @ sub @ b"
    then obtain a b where ab: "c # cs = a @ sub @ b" by blast
    show "(\<exists>b. c # cs = sub @ b) \<or> (\<exists>a b. cs = a @ sub @ b)"
    proof (cases a)
      case Nil
      with ab show ?thesis by auto
    next
      case (Cons x a')
      with ab have "cs = a' @ sub @ b" by simp
      then show ?thesis by blast
    qed
  next
    assume "(\<exists>b. c # cs = sub @ b) \<or> (\<exists>a b. cs = a @ sub @ b)"
    then show "\<exists>a b. c # cs = a @ sub @ b"
    proof
      assume "\<exists>b. c # cs = sub @ b"
      then obtain b where "c # cs = [] @ sub @ b" by auto
      then show ?thesis by blast
    next
      assume "\<exists>a b. cs = a @ sub @ b"
      then obtain a b where "c # cs = (c # a) @ sub @ b" by auto
      then show ?thesis by blast
    qed
  qed
  with Cons show ?case by (simp add: startsWith_iff)
qed

lemma closest_anchor_Some:
  "closest_anchor ns = Some h \<longleftrightarrow> (\<exists>os rest. ns = os @ Anchor h # rest \<and> set os \<subseteq> {Other})"
proof (induction ns rule: closest_anchor.induct)
  case 1
  then show ?case by simp
next
  case (2 href ns)
  show ?case
  proof
    assume "closest_anchor (Anchor href # ns) = Some h"
    then have "Anchor href # ns = [] @ Anchor h # ns \<and> set [] \<subseteq> {Other}" by simp
    then show "\<exists>os rest. Anchor href # ns = os @ Anchor h # rest \<and> set os \<subseteq> {Other}" by blast
  next
    assume "\<exists>os rest. Anchor href # ns = os @ Anchor h # rest \<and> set os \<subseteq> {Other}"
    then obtain os rest where o: "Anchor href # ns = os @ Anchor h # rest" "set os \<subseteq> {Other}"
      by blast
    then have "os = []" by (cases os) auto
    with o show "closest_anchor (Anchor href # ns) = Some h" by simp
  qed
next
  case (3 ns)
  show ?case
  proof
    assume "closest_anchor (Other # ns) = Some h"
    with 3 obtain os rest where "ns = os @ Anchor h # rest" "set os \<subseteq> {Other}" by auto
    then have "Other # ns = (Other # os) @ Anchor h # rest \<and> set (Other # os) \<subseteq> {Other}" by simp
    then show "\<exists>os rest. Other # ns = os @ Anchor h # rest \<and> set os \<subseteq> {Other}" by blast
  next
    assume "\<exists>os rest. Other # ns = os @ Anchor h # rest \<and> set os \<subseteq> {Other}"
    then obtain os rest where o: "Other # ns = os @ Anchor h # rest" "set os \<subseteq> {Other}"
      by blast
    then obtain os' where "os = Other # os'" by (cases os) auto
    with o have "ns = os' @ Anchor h # rest \<and> set os' \<subseteq> {Other}" by simp
    with 3 show "closest_anchor (Other # ns) = Some h" by auto
  qed
qed

lemma closest_anchor_None: "closest_anchor ns = None \<longleftrightarrow> set ns \<subseteq> {Other}"
  by (induction ns rule: closest_anchor.induct) simp_all

lemma find_first:
  "xs = pre @ h # post \<Longrightarrow> P h \<Longrightarrow> \<forall>g\<in>set pre. \<not> P g \<Longrightarrow> find P xs = Some h"
  by (induction pre arbitrary: xs) auto

subsection \<open>Media classes\<close>

lemma fold_classify_fst:
  "set (fst (fold classify xs acc)) =
     set (fst acc) \<union> {u \<in> set xs. u \<noteq> [] \<and> \<not> str_includes u ''ext_tw_video_thumb'' \<and>
                          str_includes u ''pbs.twimg.com/media''}"
  by (induction xs arbitrary: acc) (auto simp: classify_def set_add_set)

lemma fold_classify_snd:
  "set (snd (fold classify xs acc)) =
     set (snd acc) \<union> {u \<in> set xs. u \<noteq> [] \<and> str_includes u ''ext_tw_video_thumb''}"
  by (induction xs arbitrary: acc) (auto simp: classify_def set_add_set)

lemma fold_classify_bg:
  "fold classify_bg bgs acc = fold classify (List.map_filter match_bg_url bgs) acc"
  by (induction bgs arbitrary: acc)
     (auto simp: classify_bg_def List.map_filter_simps split: option.splits)

lemma extractMedia_fold:
  "m_images (extractMedia rootEl) = fst (fold classify (collected rootEl) ([], []))"
  "m_thumbnails (extractMedia rootEl) = snd (fold classify (collected rootEl) ([], []))"
  by (simp_all add: extractMedia_def collected_def fold_classify_bg Let_def)

text \<open>
  C10. A URL is in the images returned by \<open>extractMedia\<close> only if it contains
  \<open>pbs.twimg.com/media\<close>, and in the thumbnails only if it contains \<open>ext_tw_video_thumb\<close>;
  a URL collected from the image nodes or the background-image nodes that contains neither
  is in neither list.
\<close>

theorem extractMedia_classes:
  "(u \<in> set (m_images (extractMedia rootEl)) \<longrightarrow> str_includes u ''pbs.twimg.com/media'') \<and>
   (u \<in> set (m_thumbnails (extractMedia rootEl)) \<longrightarrow> str_includes u ''ext_tw_video_thumb'') \<and>
   (u \<in> set (collected rootEl) \<and> \<not> str_includes u ''pbs.twimg.com/media'' \<and>
      \<not> str_includes u ''ext_tw_video_thumb'' \<longrightarrow>
      u \<notin> set (m_images (extractMedia rootEl)) \<and> u \<notin> set (m_thumbnails (extractMedia rootEl)))"
  by (auto simp: extractMedia_fold fold_classify_fst fold_classify_snd)

theorem extractMedia_classes_witness:
  "''pbs.twimg.com/media/b.jpg'' \<in> set (m_images (extractMedia demo_article)) \<and>
   str_includes ''pbs.twimg.com/media/b.jpg'' ''pbs.twimg.com/media'' \<and>
   ''pbs.twimg.com/ext_tw_video_thumb/7/pu/a.jpg'' \<in> set (m_thumbnails (extractMedia demo_article)) \<and>
   str_includes ''pbs.twimg.com/ext_tw_video_thumb/7/pu/a.jpg'' ''ext_tw_video_thumb'' \<and>
   ''abs.twimg.com/c.svg'' \<in> set (collected demo_article) \<and>
   \<not> str_includes ''abs.twimg.com/c.svg'' ''pbs.twimg.com/media'' \<and>
   \<not> str_includes ''abs.twimg.com/c.svg'' ''ext_tw_video_thumb'' \<and>
   ''abs.twimg.com/c.svg'' \<notin> set (m_images (extractMedia demo_article)) \<and>
   ''abs.twimg.com/c.svg'' \<notin> set (m_thumbnails (extractMedia demo_article))"
  using extractMedia_classes [of "''pbs.twimg.com/media/b.jpg''" demo_article]
    extractMedia_classes [of "''pbs.twimg.com/ext_tw_video_thumb/7/pu/a.jpg''" demo_article]
    extractMedia_classes [of "''abs.twimg.com/c.svg''" demo_article]
  by (simp add: demo_article_def extractMedia_def collected_def classify_def set_add_def
      new_Set_def List.map_filter_simps)

subsection \<open>Stall detection\<close>






subsection \<open>Permalink\<close>

text \<open>
  C8. An article with a time element always yields a record, whatever its links. When
  some status link is the identifier preceded by a slash at its end, the permalink is the
  first such link. When none is: if the nearest anchor above the time element has a URL
  that contains \<open>/status/\<close> followed by the identifier, the permalink is that URL; if that
  anchor's URL does not, or there is no anchor above the time element, the permalink is
  the first status link, and the empty string when the article has no status link.
\<close>

theorem permalink_resolution:
  assumes "el_time el = Some t"
  shows "\<exists>r logs. extractTweetData mm el tid = Some (r, logs) \<and>
    (\<forall>pre h post. el_statusLinks el = pre @ h # post \<and> (\<exists>p. h = p @ CHR ''/'' # tid) \<and>
        (\<forall>g\<in>set pre. \<not> (\<exists>p. g = p @ CHR ''/'' # tid)) \<longrightarrow> postUrl r = h) \<and>
    ((\<forall>g\<in>set (el_statusLinks el). \<not> (\<exists>p. g = p @ CHR ''/'' # tid)) \<longrightarrow>
       (\<forall>os h rest. time_ancestors t = os @ Anchor h # rest \<and> set os \<subseteq> {Other} \<longrightarrow>
          postUrl r = (if \<exists>a b. h = a @ ''/status/'' @ tid @ b then h
                       else case el_statusLinks el of [] \<Rightarrow> [] | g # _ \<Rightarrow> g)) \<and>
       (set (time_ancestors t) \<subseteq> {Other} \<longrightarrow>
          postUrl r = (case el_statusLinks el of [] \<Rightarrow> [] | g # _ \<Rightarrow> g)))"
proof -
  let ?E = "\<lambda>h. endsWith h (CHR ''/'' # tid)"
  obtain r logs where e: "extractTweetData mm el tid = Some (r, logs)"
    and u: "postUrl r = resolvePostUrl el tid"
    using assms by (simp add: extractTweetData_def Let_def)
  have s1: "postUrl r = h"
    if "el_statusLinks el = pre @ h # post" "\<exists>p. h = p @ CHR ''/'' # tid"
      "\<forall>g\<in>set pre. \<not> (\<exists>p. g = p @ CHR ''/'' # tid)" for pre h post
  proof -
    have "find ?E (el_statusLinks el) = Some h"
      using that by (intro find_first [of _ pre h post]) (simp_all add: endsWith_iff)
    moreover have "h \<noteq> []" using that(2) by auto
    ultimately show ?thesis by (simp add: u resolvePostUrl_def)
  qed
  have s23: "postUrl r = (case timeLink el of
                 Some h \<Rightarrow> if str_includes h (''/status/'' @ tid) then h else genericLink el
               | None \<Rightarrow> genericLink el)"
    if "\<forall>g\<in>set (el_statusLinks el). \<not> (\<exists>p. g = p @ CHR ''/'' # tid)"
  proof -
    have "find ?E (el_statusLinks el) = None"
      using that by (simp add: find_None_iff endsWith_iff)
    then show ?thesis by (simp add: u resolvePostUrl_def)
  qed
  have s2: "postUrl r = (if \<exists>a b. h = a @ ''/status/'' @ tid @ b then h
                       else case el_statusLinks el of [] \<Rightarrow> [] | g # _ \<Rightarrow> g)"
    if "\<forall>g\<in>set (el_statusLinks el). \<not> (\<exists>p. g = p @ CHR ''/'' # tid)"
      "time_ancestors t = os @ Anchor h # rest" "set os \<subseteq> {Other}" for os h rest
  proof -
    have "closest_anchor (time_ancestors t) = Some h"
      using that(2,3) by (auto simp: closest_anchor_Some)
    then have "timeLink el = Some h" by (simp add: timeLink_def assms)
    with s23 [OF that(1)] show ?thesis
      by (simp add: str_includes_iff genericLink_def)
  qed
  have s3: "postUrl r = (case el_statusLinks el of [] \<Rightarrow> [] | g # _ \<Rightarrow> g)"
    if "\<forall>g\<in>set (el_statusLinks el). \<not> (\<exists>p. g = p @ CHR ''/'' # tid)"
      "set (time_ancestors t) \<subseteq> {Other}"
  proof -
    have "timeLink el = None" using that(2) by (simp add: timeLink_def assms closest_anchor_None)
    with s23 [OF that(1)] show ?thesis by (simp add: genericLink_def)
  qed
  show ?thesis
  proof (intro exI conjI allI impI)
    show "extractTweetData mm el tid = Some (r, logs)" by (rule e)
  next
    fix pre h post
    assume "el_statusLinks el = pre @ h # post \<and> (\<exists>p. h = p @ CHR ''/'' # tid) \<and>
      (\<forall>g\<in>set pre. \<not> (\<exists>p. g = p @ CHR ''/'' # tid))"
    then show "postUrl r = h" using s1 [of pre h post] by simp
  next
    fix os h rest
    assume "\<forall>g\<in>set (el_statusLinks el). \<not> (\<exists>p. g = p @ CHR ''/'' # tid)"
      and "time_ancestors t = os @ Anchor h # rest \<and> set os \<subseteq> {Other}"
    then show "postUrl r = (if \<exists>a b. h = a @ ''/status/'' @ tid @ b then h
                       else case el_statusLinks el of [] \<Rightarrow> [] | g # _ \<Rightarrow> g)"
      using s2 [of os h rest] by simp
  next
    assume "\<forall>g\<in>set (el_statusLinks el). \<not> (\<exists>p. g = p @ CHR ''/'' # tid)"
      and "set (time_ancestors t) \<subseteq> {Other}"
    then show "postUrl r = (case el_statusLinks el of [] \<Rightarrow> [] | g # _ \<Rightarrow> g)"
      by (rule s3)
  qed
qed

theorem permalink_resolution_witness:
  "map_option (postUrl \<circ> fst) (extractTweetData Map.empty
      (link_article [''x.com/u/status/42/photo/1'', ''x.com/u/status/42''] [Anchor ''x.com/u/status/42''])
      ''42'') = Some ''x.com/u/status/42'' \<and>
   map_option (postUrl \<circ> fst) (extractTweetData Map.empty
      (link_article [''x.com/u/status/42?s=1''] [Other, Anchor ''x.com/u/status/42?s=1''])
      ''42'') = Some ''x.com/u/status/42?s=1'' \<and>
   map_option (postUrl \<circ> fst) (extractTweetData Map.empty
      (link_article [''x.com/q/status/99''] [Anchor ''x.com/u/42''])
      ''42'') = Some ''x.com/q/status/99'' \<and>
   map_option (postUrl \<circ> fst) (extractTweetData Map.empty
      (link_article [] [Other])
      ''42'') = Some []"
proof (intro conjI)
  let ?el = "link_article [''x.com/u/status/42/photo/1'', ''x.com/u/status/42''] [Anchor ''x.com/u/status/42'']"
  from permalink_resolution [of ?el "\<lparr>time_datetime = None, time_ancestors = [Anchor ''x.com/u/status/42'']\<rparr>"
      Map.empty "''42''"]
  obtain r logs where e: "extractTweetData Map.empty ?el ''42'' = Some (r, logs)"
    and s: "\<forall>pre h post. el_statusLinks ?el = pre @ h # post \<and> (\<exists>p. h = p @ CHR ''/'' # ''42'') \<and>
        (\<forall>g\<in>set pre. \<not> (\<exists>p. g = p @ CHR ''/'' # ''42'')) \<longrightarrow> postUrl r = h"
    by (auto simp: link_article_def)
  have "postUrl r = ''x.com/u/status/42''"
    by (rule s [rule_format, of "[''x.com/u/status/42/photo/1'']" _ "[]"])
       (simp add: link_article_def endsWith_iff [symmetric] endsWith_def)
  with e show "map_option (postUrl \<circ> fst) (extractTweetData Map.empty ?el ''42'') = Some ''x.com/u/status/42''"
    by simp
next
  let ?el = "link_article [''x.com/u/status/42?s=1''] [Other, Anchor ''x.com/u/status/42?s=1'']"
  from permalink_resolution [of ?el
      "\<lparr>time_datetime = None, time_ancestors = [Other, Anchor ''x.com/u/status/42?s=1'']\<rparr>"
      Map.empty "''42''"]
  obtain r logs where e: "extractTweetData Map.empty ?el ''42'' = Some (r, logs)"
    and s: "(\<forall>g\<in>set (el_statusLinks ?el). \<not> (\<exists>p. g = p @ CHR ''/'' # ''42'')) \<longrightarrow>
       (\<forall>os h rest. [Other, Anchor ''x.com/u/status/42?s=1''] = os @ Anchor h # rest \<and>
            set os \<subseteq> {Other} \<longrightarrow>
          postUrl r = (if \<exists>a b. h = a @ ''/status/'' @ ''42'' @ b then h
                       else case el_statusLinks ?el of [] \<Rightarrow> [] | g # _ \<Rightarrow> g))"
    by (auto simp: link_article_def)
  have n: "\<forall>g\<in>set (el_statusLinks ?el). \<not> (\<exists>p. g = p @ CHR ''/'' # ''42'')"
    by (simp add: link_article_def endsWith_iff [symmetric] endsWith_def)
  have i: "\<exists>a b. ''x.com/u/status/42?s=1'' = a @ ''/status/'' @ ''42'' @ b"
    using str_includes_iff [of "''x.com/u/status/42?s=1''" "''/status/'' @ ''42''"] by simp
  from s [THEN mp, OF n, rule_format, of "[Other]" "''x.com/u/status/42?s=1''" "[]"] i
  have "postUrl r = ''x.com/u/status/42?s=1''" by simp
  with e show "map_option (postUrl \<circ> fst) (extractTweetData Map.empty ?el ''42'') =
      Some ''x.com/u/status/42?s=1''"
    by simp
next
  let ?el = "link_article [''x.com/q/status/99''] [Anchor ''x.com/u/42'']"
  from permalink_resolution [of ?el "\<lparr>time_datetime = None, time_ancestors = [Anchor ''x.com/u/42'']\<rparr>"
      Map.empty "''42''"]
  obtain r logs where e: "extractTweetData Map.empty ?el ''42'' = Some (r, logs)"
    and s: "(\<forall>g\<in>set (el_statusLinks ?el). \<not> (\<exists>p. g = p @ CHR ''/'' # ''42'')) \<longrightarrow>
       (\<forall>os h rest. [Anchor ''x.com/u/42''] = os @ Anchor h # rest \<and> set os \<subseteq> {Other} \<longrightarrow>
          postUrl r = (if \<exists>a b. h = a @ ''/status/'' @ ''42'' @ b then h
                       else case el_statusLinks ?el of [] \<Rightarrow> [] | g # _ \<Rightarrow> g))"
    by (auto simp: link_article_def)
  have n: "\<forall>g\<in>set (el_statusLinks ?el). \<not> (\<exists>p. g = p @ CHR ''/'' # ''42'')"
    by (simp add: link_article_def endsWith_iff [symmetric] endsWith_def)
  have i: "\<not> (\<exists>a b. ''x.com/u/42'' = a @ ''/status/'' @ ''42'' @ b)"
    using str_includes_iff [of "''x.com/u/42''" "''/status/'' @ ''42''"] by simp
  from s [THEN mp, OF n, rule_format, of "[]" "''x.com/u/42''" "[]"] i
  have "postUrl r = ''x.com/q/status/99''" by (simp add: link_article_def)
  with e show "map_option (postUrl \<circ> fst) (extractTweetData Map.empty ?el ''42'') =
      Some ''x.com/q/status/99''"
    by simp
next
  let ?el = "link_article [] [Other]"
  from permalink_resolution [of ?el "\<lparr>time_datetime = None, time_ancestors = [Other]\<rparr>"
      Map.empty "''42''"]
  obtain r logs where e: "extractTweetData Map.empty ?el ''42'' = Some (r, logs)"
    and s: "(\<forall>g\<in>set (el_statusLinks ?el). \<not> (\<exists>p. g = p @ CHR ''/'' # ''42'')) \<longrightarrow>
       (set [Other] \<subseteq> {Other} \<longrightarrow>
          postUrl r = (case el_statusLinks ?el of [] \<Rightarrow> [] | g # _ \<Rightarrow> g))"
    by (auto simp: link_article_def)
  then have "postUrl r = []" by (simp add: link_article_def)
  with e show "map_option (postUrl \<circ> fst) (extractTweetData Map.empty ?el ''42'') = Some []"
    by simp
qed

subsection \<open>The example data evaluated\<close>

lemma demo_id: "extractTweetId demo_article = Some ''42''"
  by (simp add: extractTweetId_def demo_article_def is_digit_def)

lemma demo_media: "extractMedia demo_article =
   \<lparr>m_images = [''pbs.twimg.com/media/b.jpg''], m_videos = [],
    m_thumbnails = [''pbs.twimg.com/ext_tw_video_thumb/7/pu/a.jpg'']\<rparr>"
  by (simp add: extractMedia_def demo_article_def classify_def set_add_def new_Set_def)

lemma demo_thumb: "match_media_id ''ext_tw_video_thumb/'' ''pbs.twimg.com/ext_tw_video_thumb/7/pu/a.jpg'' = Some ''7''"
  by (simp add: digits_slash_def is_digit_def)

lemma demo_url: "resolvePostUrl demo_article ''42'' = ''x.com/u/status/42''"
  by (simp add: resolvePostUrl_def demo_article_def endsWith_def)

lemma demo_fields:
  "el_time demo_article = Some \<lparr>time_datetime = Some ''2025'', time_ancestors = [Anchor ''x.com/u/status/42'']\<rparr>"
  "el_userName demo_article = Some ''u''"
  "el_tweetText demo_article = Some ''hi''"
  "el_interaction demo_article = no_counts"
  by (simp_all add: demo_article_def)

lemma demo_data: "extractTweetData Map.empty demo_article ''42'' = Some (demo_tweet, [])"
  by (simp add: extractTweetData_def Let_def demo_media demo_url demo_thumb demo_fields
      correlate_def get_or_empty_def new_Set_def demo_tweet_def digits_slash_def is_digit_def)

lemma demo_session:
  "new_TweetScraper sink demo_options Map.empty [demo_article] =
     demo_scraper\<lparr>batchSize := 1, tweets := [demo_tweet], processedTweetIds := {''42''},
       trace := [ConsoleLog (Captured ''42'' 1)]\<rparr>"
  by (simp add: new_TweetScraper_def demo_options_def updateTweets_def updateTweets_body_def
      demo_id demo_data num_or_def js_num_or_def str_or_null_def new_Set_def demo_scraper_def)

lemma demo_request:
  "match_media_id ''ext_tw_video/'' ''video.twimg.com/ext_tw_video/7/v.mp4'' = Some ''7''"
  by (simp add: digits_slash_def is_digit_def)

subsection \<open>Flush and teardown\<close>

lemma flushes_append: "flushes (xs @ ys) = flushes xs @ flushes ys"
  by (induction xs rule: flushes.induct) simp_all

lemma captured_append: "captured (xs @ ys) = captured xs @ captured ys"
  by (induction xs rule: captured.induct) simp_all

lemma other_id: "extractTweetId other_article = Some ''43''"
  by (simp add: extractTweetId_def other_article_def is_digit_def)

lemma other_data: "extractTweetData mm other_article ''43'' = Some (other_tweet, [])"
  by (simp add: extractTweetData_def Let_def extractMedia_def resolvePostUrl_def endsWith_def
      new_Set_def other_article_def other_tweet_def)

lemma cleanup_trace:
  "trace (cleanup sink s) =
     trace s @ (if tweets s = [] then []
                else [if sink (tweets s) then Download (tweets s) else ConsoleError (tweets s)])
       @ [ClearInterval, Disconnect, HudRemove, ConsoleLog ScraperStopped]"
  by (simp add: cleanup_def downloadTweetsAsJson_def Let_def)

lemma cleanup_fields:
  "tweets (cleanup sink s) = tweets s"
  "processedTweetIds (cleanup sink s) = processedTweetIds s"
  "stopAtTweetId (cleanup sink s) = stopAtTweetId s"
  "mediaMap (cleanup sink s) = mediaMap s"
  "scrollTimer (cleanup sink s) = False"
  "observing (cleanup sink s) = False"
  "hudShown (cleanup sink s) = False"
  by (simp_all add: cleanup_def downloadTweetsAsJson_def Let_def)

text \<open>
  C1, as the code has it. \<open>downloadTweetsAsJson\<close> catches a failed export and logs it; it
  returns nothing. A tick that finds the pending batch at or over the batch size hands the
  batch to the export once, then clears it and increments the batch index, whether the
  export completed or not; \<open>cleanup\<close> never clears the pending batch.
\<close>

theorem tick_flush_clears:
  "(batchSize s \<le> int (length (tweets s)) \<longrightarrow>
      tweets (scroll_tick sink h s) = [] \<and>
      batchIndex (scroll_tick sink h s) = batchIndex s + 1 \<and>
      flushes (trace (scroll_tick sink h s)) = flushes (trace s) @ [tweets s] \<and>
      last (trace (scroll_tick sink h s)) =
        (if sink (tweets s) then Download (tweets s) else ConsoleError (tweets s))) \<and>
   tweets (cleanup sink s) = tweets s"
  by (simp add: scroll_tick_def downloadTweetsAsJson_def Let_def flushes_append cleanup_fields)

theorem tick_flush_clears_witness:
  "batchSize (new_TweetScraper (\<lambda>b. False) demo_options Map.empty [demo_article])
     \<le> int (length (tweets (new_TweetScraper (\<lambda>b. False) demo_options Map.empty [demo_article]))) \<and>
   tweets (scroll_tick (\<lambda>b. False) 900
     (new_TweetScraper (\<lambda>b. False) demo_options Map.empty [demo_article])) = [] \<and>
   batchIndex (scroll_tick (\<lambda>b. False) 900
     (new_TweetScraper (\<lambda>b. False) demo_options Map.empty [demo_article])) = 1 \<and>
   last (trace (scroll_tick (\<lambda>b. False) 900
     (new_TweetScraper (\<lambda>b. False) demo_options Map.empty [demo_article]))) = ConsoleError [demo_tweet]"
  using tick_flush_clears [of "new_TweetScraper (\<lambda>b. False) demo_options Map.empty [demo_article]"
      "\<lambda>b. False" 900]
  by (simp add: demo_session demo_scraper_def)

text \<open>
  C1 as stated fails: with a batch size of one and an export that fails, the tick after the
  capture of one record logs the error and leaves the pending batch empty.
\<close>

theorem flush_failure_counterexample:
  "tweets (new_TweetScraper (\<lambda>b. False) demo_options Map.empty [demo_article]) = [demo_tweet] \<and>
   tweets (scroll_tick (\<lambda>b. False) 900
     (new_TweetScraper (\<lambda>b. False) demo_options Map.empty [demo_article])) = [] \<and>
   trace (scroll_tick (\<lambda>b. False) 900
     (new_TweetScraper (\<lambda>b. False) demo_options Map.empty [demo_article])) =
     [ConsoleLog (Captured ''42'' 1), ScrollBy (Step (Finite 800)), ConsoleError [demo_tweet]]"
  by (simp add: demo_session demo_scraper_def scroll_tick_def downloadTweetsAsJson_def Let_def)

text \<open>
  C3, as the code has it. \<open>cleanup\<close> first flushes the pending batch when it is not empty,
  then clears the interval, then disconnects the observer, then removes the status element.
  It has no failing branch and does not clear the pending batch: after a second call the
  timer and the observer are still off, and a non-empty batch has been exported twice.
\<close>

theorem cleanup_order:
  "trace (cleanup sink s) =
     trace s @ (if tweets s = [] then []
                else [if sink (tweets s) then Download (tweets s) else ConsoleError (tweets s)])
       @ [ClearInterval, Disconnect, HudRemove, ConsoleLog ScraperStopped] \<and>
   tweets (cleanup sink s) = tweets s \<and>
   \<not> scrollTimer (cleanup sink s) \<and> \<not> observing (cleanup sink s) \<and>
   \<not> scrollTimer (cleanup sink (cleanup sink s)) \<and> \<not> observing (cleanup sink (cleanup sink s)) \<and>
   flushes (trace (cleanup sink (cleanup sink s))) =
     flushes (trace s) @ (if tweets s = [] then [] else [tweets s, tweets s])"
  by (simp add: cleanup_trace cleanup_fields flushes_append)

theorem cleanup_order_witness:
  "trace (cleanup (\<lambda>b. True) (new_TweetScraper (\<lambda>b. True) demo_options Map.empty [demo_article])) =
     [ConsoleLog (Captured ''42'' 1), Download [demo_tweet], ClearInterval, Disconnect, HudRemove,
      ConsoleLog ScraperStopped] \<and>
   flushes (trace (cleanup (\<lambda>b. True) (cleanup (\<lambda>b. True)
     (new_TweetScraper (\<lambda>b. True) demo_options Map.empty [demo_article])))) =
     [[demo_tweet], [demo_tweet]]"
  using cleanup_order [of "\<lambda>b. True" "new_TweetScraper (\<lambda>b. True) demo_options Map.empty [demo_article]"]
  by (simp add: demo_session demo_scraper_def)

text \<open>
  C3 as stated fails: the flush comes before the timer and the observer are stopped, and a
  second stop exports the same batch again.
\<close>

theorem stop_twice_counterexample:
  "trace (run (\<lambda>b. True) [Stop, Stop]
     (new_TweetScraper (\<lambda>b. True) demo_options Map.empty [demo_article])) =
     [ConsoleLog (Captured ''42'' 1),
      Download [demo_tweet], ClearInterval, Disconnect, HudRemove, ConsoleLog ScraperStopped,
      Download [demo_tweet], ClearInterval, Disconnect, HudRemove, ConsoleLog ScraperStopped]"
  by (simp add: run_def demo_session demo_scraper_def cleanup_def downloadTweetsAsJson_def Let_def)

lemma correlate_logs:
  "flushes (snd (fold (correlate mm) ts acc)) = flushes (snd acc)"
  "captured (snd (fold (correlate mm) ts acc)) = captured (snd acc)"
  by (induction ts arbitrary: acc)
     (simp_all add: correlate_def Let_def flushes_append captured_append split: option.splits)

lemma extractTweetData_Some:
  assumes "extractTweetData mm el tid = Some (r, logs)"
  shows "flushes logs = []" "captured logs = []" "tweetId r = tid"
  using assms
  by (auto simp: extractTweetData_def Let_def correlate_logs split: option.splits)

lemma body_other:
  assumes "extractTweetId el \<noteq> Some tid" "stopAtTweetId s = Some tid"
  shows "fst (updateTweets_body sink seeded el s) = Continue"
    and "stopAtTweetId (snd (updateTweets_body sink seeded el s)) = Some tid"
    and "tid \<in> processedTweetIds (snd (updateTweets_body sink seeded el s))
           \<longleftrightarrow> tid \<in> processedTweetIds s"
    and "flushes (trace (snd (updateTweets_body sink seeded el s))) = flushes (trace s)"
  using assms
  by (auto simp: updateTweets_body_def flushes_append extractTweetData_Some
      split: option.splits)

lemma loop_prefix:
  assumes "\<forall>e\<in>set pre. extractTweetId e \<noteq> Some tid" "stopAtTweetId s = Some tid"
  shows "updateTweets_loop sink seeded (pre @ rest) s =
           updateTweets_loop sink seeded rest (updateTweets_loop sink seeded pre s) \<and>
         stopAtTweetId (updateTweets_loop sink seeded pre s) = Some tid \<and>
         (tid \<in> processedTweetIds (updateTweets_loop sink seeded pre s)
            \<longleftrightarrow> tid \<in> processedTweetIds s) \<and>
         flushes (trace (updateTweets_loop sink seeded pre s)) = flushes (trace s)"
  using assms
proof (induction pre arbitrary: s)
  case Nil
  then show ?case by simp
next
  case (Cons e pre)
  obtain fl s' where b: "updateTweets_body sink seeded e s = (fl, s')"
    by (cases "updateTweets_body sink seeded e s")
  have e: "extractTweetId e \<noteq> Some tid" using Cons.prems(1) by simp
  from body_other [OF e Cons.prems(2), of sink seeded] b
  have fl: "fl = Continue" and s': "stopAtTweetId s' = Some tid"
    "tid \<in> processedTweetIds s' \<longleftrightarrow> tid \<in> processedTweetIds s"
    "flushes (trace s') = flushes (trace s)"
    by simp_all
  have "\<forall>e\<in>set pre. extractTweetId e \<noteq> Some tid" using Cons.prems(1) by simp
  from Cons.IH [OF this s'(1)] show ?case
    by (simp add: b fl s')
qed

lemma body_stop:
  assumes "extractTweetId el = Some tid" "stopAtTweetId s = Some tid" "tid \<notin> processedTweetIds s"
  shows "updateTweets_body sink seeded el s =
           (Return, cleanup sink (s\<lparr>trace := trace s @ [ConsoleLog (ReachedStop tid)]\<rparr>))"
  using assms by (simp add: updateTweets_body_def)

text \<open>
  C5, as the code has it. When the loop of \<open>updateTweets\<close> meets an element whose identifier
  is the stop identifier and is not in the processed set, the elements after it are not
  processed, the timer and the observer are stopped, and the invocation hands the pending
  batch (with the records pushed earlier in the same invocation) to the export exactly once
  when that batch is not empty, and not at all when it is empty.
\<close>

theorem stop_id_halts:
  assumes "extractTweetId el = Some tid" and "stopAtTweetId s = Some tid"
    and "tid \<notin> processedTweetIds s"
    and "\<forall>e\<in>set pre. extractTweetId e \<noteq> Some tid"
  shows "updateTweets_loop sink seeded (pre @ el # rest) s =
           updateTweets_loop sink seeded (pre @ [el]) s \<and>
         flushes (trace (updateTweets_loop sink seeded (pre @ el # rest) s)) =
           flushes (trace s) @
             (if tweets (updateTweets_loop sink seeded pre s) = [] then []
              else [tweets (updateTweets_loop sink seeded pre s)]) \<and>
         tweets (updateTweets_loop sink seeded (pre @ el # rest) s) =
           tweets (updateTweets_loop sink seeded pre s) \<and>
         \<not> scrollTimer (updateTweets_loop sink seeded (pre @ el # rest) s) \<and>
         \<not> observing (updateTweets_loop sink seeded (pre @ el # rest) s)"
proof -
  let ?s = "updateTweets_loop sink seeded pre s"
  have p: "\<And>r. updateTweets_loop sink seeded (pre @ r) s = updateTweets_loop sink seeded r ?s"
    and st: "stopAtTweetId ?s = Some tid" and np: "tid \<notin> processedTweetIds ?s"
    and fl: "flushes (trace ?s) = flushes (trace s)"
    using loop_prefix [OF assms(4) assms(2), of sink seeded] assms(3) by simp_all
  have b: "updateTweets_body sink seeded el ?s =
      (Return, cleanup sink (?s\<lparr>trace := trace ?s @ [ConsoleLog (ReachedStop tid)]\<rparr>))"
    by (rule body_stop [OF assms(1) st np])
  show ?thesis
    by (simp add: p b cleanup_trace cleanup_fields flushes_append fl)
qed

theorem stop_id_halts_witness:
  "extractTweetId other_article = Some ''43'' \<and>
   stopAtTweetId (demo_scraper\<lparr>stopAtTweetId := Some ''43''\<rparr>) = Some ''43'' \<and>
   ''43'' \<notin> processedTweetIds (demo_scraper\<lparr>stopAtTweetId := Some ''43''\<rparr>) \<and>
   extractTweetId demo_article \<noteq> Some ''43'' \<and>
   flushes (trace (updateTweets_loop (\<lambda>b. True) False ([demo_article] @ other_article # [demo_article])
     (demo_scraper\<lparr>stopAtTweetId := Some ''43''\<rparr>))) = [[demo_tweet]] \<and>
   tweets (updateTweets_loop (\<lambda>b. True) False ([demo_article] @ other_article # [demo_article])
     (demo_scraper\<lparr>stopAtTweetId := Some ''43''\<rparr>)) = [demo_tweet]"
  using stop_id_halts [of other_article "''43''" "demo_scraper\<lparr>stopAtTweetId := Some ''43''\<rparr>"
      "[demo_article]" "\<lambda>b. True" False "[demo_article]"]
  by (simp add: other_id demo_id demo_data updateTweets_body_def demo_scraper_def)

text \<open>
  C5 as stated fails when nothing is pending: a scraper that meets the stop identifier on
  its first element stops without any flush.
\<close>

theorem stop_empty_batch_counterexample:
  "extractTweetId other_article = Some ''43'' \<and>
   trace (new_TweetScraper (\<lambda>b. True) stop_options Map.empty [other_article, demo_article]) =
     [ConsoleLog (ReachedStop ''43''), ClearInterval, Disconnect, HudRemove,
      ConsoleLog ScraperStopped] \<and>
   flushes (trace (new_TweetScraper (\<lambda>b. True) stop_options Map.empty
     [other_article, demo_article])) = []"
  by (simp add: other_id new_TweetScraper_def stop_options_def updateTweets_def
      updateTweets_body_def num_or_def js_num_or_def str_or_null_def new_Set_def cleanup_def Let_def)

subsection \<open>Invariants of the loop and of sessions\<close>

lemma loop_invariant:
  assumes "\<And>el s. P s \<Longrightarrow> P (snd (updateTweets_body sink seeded el s))" and "P s"
  shows "P (updateTweets_loop sink seeded els s)"
  using assms(2)
proof (induction els arbitrary: s)
  case Nil
  then show ?case by simp
next
  case (Cons el els)
  obtain fl s' where b: "updateTweets_body sink seeded el s = (fl, s')"
    by (cases "updateTweets_body sink seeded el s")
  from assms(1) [OF Cons.prems, of el] b have "P s'" by simp
  then show ?case using Cons.IH [of s'] b by (cases fl) simp_all
qed

lemma updateTweets_invariant:
  assumes "\<And>seeded el s. P s \<Longrightarrow> P (snd (updateTweets_body sink seeded el s))" and "P s"
  shows "P (updateTweets sink seedEls doc s)"
  using assms by (auto simp: updateTweets_def intro: loop_invariant split: option.splits)

lemma run_invariant:
  assumes "\<And>ev s. P s \<Longrightarrow> P (step sink ev s)" and "P s"
  shows "P (run sink evs s)"
  using assms(2) unfolding run_def
  by (induction evs arbitrary: s) (simp_all add: assms(1))

lemma step_invariant:
  assumes body: "\<And>seeded el s. P s \<Longrightarrow> P (snd (updateTweets_body sink seeded el s))"
    and tick: "\<And>h s. P s \<Longrightarrow> P (scroll_tick sink h s)"
    and req: "\<And>url s. P s \<Longrightarrow> P (stash url s)"
    and stop: "\<And>s. P s \<Longrightarrow> P (cleanup sink s)"
    and "P s"
  shows "P (step sink ev s)"
  using assms
  by (cases ev) (auto simp: on_request_def intro: updateTweets_invariant)

subsection \<open>Correlation of intercepted requests\<close>

lemma digits_slash_nonempty: "digits_slash r = Some ds \<Longrightarrow> ds \<noteq> []"
  by (auto simp: digits_slash_def Let_def split: if_splits)

lemma match_media_id_nonempty: "match_media_id lit s = Some ds \<Longrightarrow> ds \<noteq> []"
  by (induction s) (auto simp: digits_slash_nonempty split: option.splits if_splits)

lemma fold_set_add: "set (fold (\<lambda>u vs. set_add vs u) us vs) = set vs \<union> set us"
  by (induction us arbitrary: vs) (auto simp: set_add_set)

lemma correlate_fst:
  "set (fst (correlate mm t acc)) =
     set (fst acc) \<union> (case match_media_id ''ext_tw_video_thumb/'' t of
                         None \<Rightarrow> {}
                       | Some mid \<Rightarrow> set (get_or_empty mm mid))"
  by (auto simp: correlate_def Let_def fold_set_add match_media_id_nonempty split: option.splits)

lemma fold_correlate_fst:
  "set (fst (fold (correlate mm) ts acc)) =
     set (fst acc) \<union> (\<Union>t\<in>set ts. case match_media_id ''ext_tw_video_thumb/'' t of
                         None \<Rightarrow> {}
                       | Some mid \<Rightarrow> set (get_or_empty mm mid))"
  by (induction ts arbitrary: acc) (auto simp: correlate_fst)

lemma stash_stores:
  "match_media_id ''ext_tw_video/'' url = Some mid \<Longrightarrow>
     url \<in> set (get_or_empty (mediaMap (stash url s)) mid)"
  by (simp add: stash_def get_or_empty_def)

lemma stash_keeps:
  "u \<in> set (get_or_empty (mediaMap s) mid) \<Longrightarrow> u \<in> set (get_or_empty (mediaMap (stash url s)) mid)"
  by (auto simp: stash_def get_or_empty_def split: option.splits)

lemma body_mediaMap: "mediaMap (snd (updateTweets_body sink seeded el s)) = mediaMap s"
  by (auto simp: updateTweets_body_def cleanup_fields split: option.splits)

lemma scroll_tick_mediaMap: "mediaMap (scroll_tick sink h s) = mediaMap s"
  by (simp add: scroll_tick_def downloadTweetsAsJson_def Let_def)

lemma run_keeps:
  assumes "u \<in> set (get_or_empty (mediaMap s) mid)"
  shows "u \<in> set (get_or_empty (mediaMap (run sink evs s)) mid)"
proof (rule run_invariant [where P = "\<lambda>s. u \<in> set (get_or_empty (mediaMap s) mid)"])
  fix ev and s :: scraper assume "u \<in> set (get_or_empty (mediaMap s) mid)"
  then show "u \<in> set (get_or_empty (mediaMap (step sink ev s)) mid)"
    by (rule step_invariant [where P = "\<lambda>s. u \<in> set (get_or_empty (mediaMap s) mid)", rotated 4])
       (simp_all add: body_mediaMap scroll_tick_mediaMap stash_keeps cleanup_fields)
qed (rule assms)

text \<open>
  C6. A URL that matches \<open>ext_tw_video/<digits>/\<close> and has been stashed stays in the map
  under its media identifier whatever happens afterwards; the extraction of an article
  with a time element, one of whose thumbnails carries the same identifier after
  \<open>ext_tw_video_thumb/\<close>, then returns a record whose videos contain that URL, and this is
  the record that the loop of \<open>updateTweets\<close> pushes when the article is new.
\<close>

theorem capture_before_extraction:
  assumes "match_media_id ''ext_tw_video/'' url = Some mid"
    and "thumb \<in> set (m_thumbnails (extractMedia el))"
    and "match_media_id ''ext_tw_video_thumb/'' thumb = Some mid"
    and "el_time el = Some t"
  shows "\<exists>r logs. extractTweetData (mediaMap (run sink evs (stash url s))) el tid = Some (r, logs) \<and>
           url \<in> set (videos r) \<and>
           (extractTweetId el = Some tid \<and> tid \<notin> processedTweetIds (run sink evs (stash url s)) \<and>
            stopAtTweetId (run sink evs (stash url s)) \<noteq> Some tid \<longrightarrow>
              tweets (snd (updateTweets_body sink seeded el (run sink evs (stash url s)))) =
                tweets (run sink evs (stash url s)) @ [r])"
proof -
  let ?mm = "mediaMap (run sink evs (stash url s))"
  have "url \<in> set (get_or_empty ?mm mid)"
    by (rule run_keeps [OF stash_stores [OF assms(1)]])
  with assms(2,3) have "url \<in> set (fst (fold (correlate ?mm) (m_thumbnails (extractMedia el))
      (new_Set (m_videos (extractMedia el)), [])))"
    by (force simp: fold_correlate_fst)
  with assms(4) show ?thesis
    by (auto simp: extractTweetData_def Let_def updateTweets_body_def)
qed

theorem capture_before_extraction_witness:
  "match_media_id ''ext_tw_video/'' ''video.twimg.com/ext_tw_video/7/v.mp4'' = Some ''7'' \<and>
   ''pbs.twimg.com/ext_tw_video_thumb/7/pu/a.jpg'' \<in> set (m_thumbnails (extractMedia demo_article)) \<and>
   match_media_id ''ext_tw_video_thumb/'' ''pbs.twimg.com/ext_tw_video_thumb/7/pu/a.jpg'' = Some ''7'' \<and>
   extractTweetId demo_article = Some ''42'' \<and>
   ''42'' \<notin> processedTweetIds (run (\<lambda>b. True) [Tick 5]
      (stash ''video.twimg.com/ext_tw_video/7/v.mp4'' demo_scraper)) \<and>
   stopAtTweetId (run (\<lambda>b. True) [Tick 5]
      (stash ''video.twimg.com/ext_tw_video/7/v.mp4'' demo_scraper)) \<noteq> Some ''42'' \<and>
   map videos (tweets (snd (updateTweets_body (\<lambda>b. True) False demo_article
      (run (\<lambda>b. True) [Tick 5] (stash ''video.twimg.com/ext_tw_video/7/v.mp4'' demo_scraper))))) =
     [[''video.twimg.com/ext_tw_video/7/v.mp4'']]"
  using capture_before_extraction [of "''video.twimg.com/ext_tw_video/7/v.mp4''" "''7''"
      "''pbs.twimg.com/ext_tw_video_thumb/7/pu/a.jpg''" demo_article
      "\<lparr>time_datetime = Some ''2025'', time_ancestors = [Anchor ''x.com/u/status/42'']\<rparr>"
      "\<lambda>b. True" "[Tick 5]" demo_scraper "''42''" False]
  by (simp add: demo_media demo_fields demo_id demo_url digits_slash_def is_digit_def run_def
      scroll_tick_def stash_def demo_scraper_def Let_def updateTweets_body_def
      extractTweetData_def correlate_def get_or_empty_def set_add_def new_Set_def)

subsection \<open>One record for an identifier\<close>

lemma late_media_same:
  "tweetId (late_media m t) = tweetId t"
  "core (late_media m t) = core t"
  by (simp_all add: late_media_def core_def Let_def)

lemma update_first_map:
  "(\<And>x. f (g x) = f x) \<Longrightarrow> map f (update_first Q g xs) = map f xs"
  by (induction xs) simp_all

lemma update_first_filter_map:
  "(\<And>x. P (g x) = P x) \<Longrightarrow> (\<And>x. f (g x) = f x) \<Longrightarrow>
     map f (filter P (update_first Q g xs)) = map f (filter P xs)"
  by (induction xs) simp_all

lemma body_captured:
  "(captured (trace (snd (updateTweets_body sink seeded el s))) = captured (trace s) \<and>
    processedTweetIds (snd (updateTweets_body sink seeded el s)) = processedTweetIds s \<and>
    map tweetId (tweets (snd (updateTweets_body sink seeded el s))) = map tweetId (tweets s)) \<or>
   (\<exists>tid. tid \<notin> processedTweetIds s \<and>
      captured (trace (snd (updateTweets_body sink seeded el s))) = captured (trace s) @ [tid] \<and>
      processedTweetIds (snd (updateTweets_body sink seeded el s)) = insert tid (processedTweetIds s) \<and>
      map tweetId (tweets (snd (updateTweets_body sink seeded el s))) = map tweetId (tweets s) @ [tid])"
  by (auto simp: updateTweets_body_def cleanup_trace cleanup_fields captured_append
      extractTweetData_Some update_first_map late_media_same split: option.splits)

lemma scroll_tick_captured:
  "captured (trace (scroll_tick sink h s)) = captured (trace s)"
  "processedTweetIds (scroll_tick sink h s) = processedTweetIds s"
  "tweets (scroll_tick sink h s) = tweets s \<or> tweets (scroll_tick sink h s) = []"
  by (simp_all add: scroll_tick_def downloadTweetsAsJson_def Let_def captured_append)

lemma stash_captured:
  "captured (trace (stash url s)) = captured (trace s)"
  "processedTweetIds (stash url s) = processedTweetIds s"
  "tweets (stash url s) = tweets s"
  by (simp_all add: stash_def captured_append split: option.splits)

lemma cleanup_captured: "captured (trace (cleanup sink s)) = captured (trace s)"
  by (simp add: cleanup_trace captured_append)

lemma ids_extend:
  assumes "distinct c" and "set c \<subseteq> A" and "c = pre @ ids" and "tid \<notin> A"
  shows "distinct (c @ [tid]) \<and> set (c @ [tid]) \<subseteq> insert tid A \<and>
         (\<exists>pre'. c @ [tid] = pre' @ ids @ [tid])"
  using assms by auto

lemma body_ids:
  assumes d: "distinct (captured (trace s))"
    and p: "set (captured (trace s)) \<subseteq> processedTweetIds s"
    and e: "captured (trace s) = pre @ map tweetId (tweets s)"
  shows "distinct (captured (trace (snd (updateTweets_body sink seeded el s)))) \<and>
    set (captured (trace (snd (updateTweets_body sink seeded el s))))
      \<subseteq> processedTweetIds (snd (updateTweets_body sink seeded el s)) \<and>
    (\<exists>pre'. captured (trace (snd (updateTweets_body sink seeded el s))) =
       pre' @ map tweetId (tweets (snd (updateTweets_body sink seeded el s))))"
proof -
  let ?s = "snd (updateTweets_body sink seeded el s)"
  from body_captured [of sink seeded el s] show ?thesis
  proof (elim disjE exE conjE)
    assume "captured (trace ?s) = captured (trace s)"
      and "processedTweetIds ?s = processedTweetIds s"
      and "map tweetId (tweets ?s) = map tweetId (tweets s)"
    with d p e show ?thesis by auto
  next
    fix tid
    assume n: "tid \<notin> processedTweetIds s"
      and c: "captured (trace ?s) = captured (trace s) @ [tid]"
      and q: "processedTweetIds ?s = insert tid (processedTweetIds s)"
      and t: "map tweetId (tweets ?s) = map tweetId (tweets s) @ [tid]"
    from ids_extend [OF d p e n] show ?thesis
      by (simp only: c q t)
  qed
qed

lemma step_ids:
  assumes "distinct (captured (trace s)) \<and> set (captured (trace s)) \<subseteq> processedTweetIds s \<and>
           (\<exists>pre. captured (trace s) = pre @ map tweetId (tweets s))"
  shows "distinct (captured (trace (step sink ev s))) \<and>
         set (captured (trace (step sink ev s))) \<subseteq> processedTweetIds (step sink ev s) \<and>
         (\<exists>pre. captured (trace (step sink ev s)) = pre @ map tweetId (tweets (step sink ev s)))"
proof (rule step_invariant [where P = "\<lambda>s. distinct (captured (trace s)) \<and>
    set (captured (trace s)) \<subseteq> processedTweetIds s \<and>
    (\<exists>pre. captured (trace s) = pre @ map tweetId (tweets s))"])
  fix seeded el and s :: scraper
  assume "distinct (captured (trace s)) \<and> set (captured (trace s)) \<subseteq> processedTweetIds s \<and>
    (\<exists>pre. captured (trace s) = pre @ map tweetId (tweets s))"
  then show "distinct (captured (trace (snd (updateTweets_body sink seeded el s)))) \<and>
    set (captured (trace (snd (updateTweets_body sink seeded el s))))
      \<subseteq> processedTweetIds (snd (updateTweets_body sink seeded el s)) \<and>
    (\<exists>pre. captured (trace (snd (updateTweets_body sink seeded el s))) =
       pre @ map tweetId (tweets (snd (updateTweets_body sink seeded el s))))"
    using body_ids by blast
next
  fix h and s :: scraper
  assume "distinct (captured (trace s)) \<and> set (captured (trace s)) \<subseteq> processedTweetIds s \<and>
    (\<exists>pre. captured (trace s) = pre @ map tweetId (tweets s))"
  then show "distinct (captured (trace (scroll_tick sink h s))) \<and>
    set (captured (trace (scroll_tick sink h s))) \<subseteq> processedTweetIds (scroll_tick sink h s) \<and>
    (\<exists>pre. captured (trace (scroll_tick sink h s)) = pre @ map tweetId (tweets (scroll_tick sink h s)))"
    using scroll_tick_captured(3) [of sink h s] by (auto simp: scroll_tick_captured(1,2))
qed (simp_all add: stash_captured cleanup_captured cleanup_fields assms)

lemma body_known:
  assumes "tid \<in> processedTweetIds s"
  shows "tid \<in> processedTweetIds (snd (updateTweets_body sink seeded el s)) \<and>
         map core (filter (\<lambda>t. tweetId t = tid) (tweets (snd (updateTweets_body sink seeded el s)))) =
           map core (filter (\<lambda>t. tweetId t = tid) (tweets s))"
  using assms
  by (auto simp: updateTweets_body_def cleanup_fields extractTweetData_Some
      update_first_filter_map late_media_same split: option.splits)

text \<open>
  C4. In every session, from the constructor on and whatever the events, no identifier is
  logged as captured twice and the pending batch holds no identifier twice. Once an
  identifier is in the processed set, a call of \<open>updateTweets\<close>, seeded or not, leaves it
  there and leaves the records of the pending batch with that identifier as they were,
  apart from their images and videos.
\<close>

theorem one_record_per_id:
  "distinct (captured (trace (run sink evs (new_TweetScraper sink opts mm doc)))) \<and>
   distinct (map tweetId (tweets (run sink evs (new_TweetScraper sink opts mm doc)))) \<and>
   (tid \<in> processedTweetIds s \<longrightarrow>
      tid \<in> processedTweetIds (updateTweets sink seedEls els s) \<and>
      map core (filter (\<lambda>t. tweetId t = tid) (tweets (updateTweets sink seedEls els s))) =
        map core (filter (\<lambda>t. tweetId t = tid) (tweets s)))"
proof -
  let ?I = "\<lambda>s. distinct (captured (trace s)) \<and> set (captured (trace s)) \<subseteq> processedTweetIds s \<and>
    (\<exists>pre. captured (trace s) = pre @ map tweetId (tweets s))"
  have "?I (new_TweetScraper sink opts mm doc)"
    unfolding new_TweetScraper_def Let_def
    by (rule step_ids [where ev = "FullScan doc", simplified]) simp
  then have I: "?I (run sink evs (new_TweetScraper sink opts mm doc))"
    by (rule run_invariant [where P = ?I, rotated]) (rule step_ids)
  then obtain pre where
    "captured (trace (run sink evs (new_TweetScraper sink opts mm doc))) =
       pre @ map tweetId (tweets (run sink evs (new_TweetScraper sink opts mm doc)))"
    by blast
  with I have "distinct (map tweetId (tweets (run sink evs (new_TweetScraper sink opts mm doc))))"
    by (metis distinct_append)
  moreover have "tid \<in> processedTweetIds s \<longrightarrow>
      tid \<in> processedTweetIds (updateTweets sink seedEls els s) \<and>
      map core (filter (\<lambda>t. tweetId t = tid) (tweets (updateTweets sink seedEls els s))) =
        map core (filter (\<lambda>t. tweetId t = tid) (tweets s))"
  proof
    assume k: "tid \<in> processedTweetIds s"
    show "tid \<in> processedTweetIds (updateTweets sink seedEls els s) \<and>
      map core (filter (\<lambda>t. tweetId t = tid) (tweets (updateTweets sink seedEls els s))) =
        map core (filter (\<lambda>t. tweetId t = tid) (tweets s))"
      by (rule updateTweets_invariant [where P = "\<lambda>s'. tid \<in> processedTweetIds s' \<and>
          map core (filter (\<lambda>t. tweetId t = tid) (tweets s')) =
            map core (filter (\<lambda>t. tweetId t = tid) (tweets s))"])
         (use k body_known in auto)
  qed
  ultimately show ?thesis using I by blast
qed

theorem one_record_per_id_witness:
  "distinct (captured (trace (run (\<lambda>b. True) [Mutated demo_article, Tick 5, FullScan [demo_article]]
     (new_TweetScraper (\<lambda>b. True) demo_options Map.empty [demo_article])))) \<and>
   ''42'' \<in> processedTweetIds (new_TweetScraper (\<lambda>b. True) demo_options Map.empty [demo_article]) \<and>
   map core (filter (\<lambda>t. tweetId t = ''42'') (tweets (updateTweets (\<lambda>b. True) (Some [demo_article]) []
     (new_TweetScraper (\<lambda>b. True) demo_options Map.empty [demo_article])))) = [core demo_tweet]"
  using one_record_per_id [of "\<lambda>b. True" "[Mutated demo_article, Tick 5, FullScan [demo_article]]"
      demo_options Map.empty "[demo_article]" "''42''"
      "new_TweetScraper (\<lambda>b. True) demo_options Map.empty [demo_article]" "Some [demo_article]" "[]"]
  by (simp add: demo_session demo_scraper_def demo_tweet_def)

subsection \<open>Skipped identifiers\<close>

lemma body_flushes:
  "flushes (trace (snd (updateTweets_body sink seeded el s))) = flushes (trace s) \<or>
   flushes (trace (snd (updateTweets_body sink seeded el s))) = flushes (trace s) @ [tweets s]"
  by (auto simp: updateTweets_body_def cleanup_trace flushes_append extractTweetData_Some
      split: option.splits)

lemma scroll_tick_flushes:
  "flushes (trace (scroll_tick sink h s)) = flushes (trace s) \<or>
   flushes (trace (scroll_tick sink h s)) = flushes (trace s) @ [tweets s]"
  by (simp add: scroll_tick_def downloadTweetsAsJson_def Let_def flushes_append)

lemma cleanup_flushes:
  "flushes (trace (cleanup sink s)) = flushes (trace s) \<or>
   flushes (trace (cleanup sink s)) = flushes (trace s) @ [tweets s]"
  by (simp add: cleanup_trace flushes_append)

lemma stash_flushes: "flushes (trace (stash url s)) = flushes (trace s)"
  by (simp add: stash_def flushes_append split: option.splits)

lemma body_skipped:
  assumes "tid \<in> processedTweetIds s" and "tid \<notin> set (captured (trace s))"
    and "tid \<notin> tweetId ` set (tweets s)"
    and "\<forall>b\<in>set (flushes (trace s)). tid \<notin> tweetId ` set b"
  shows "tid \<in> processedTweetIds (snd (updateTweets_body sink seeded el s)) \<and>
         tid \<notin> set (captured (trace (snd (updateTweets_body sink seeded el s)))) \<and>
         tid \<notin> tweetId ` set (tweets (snd (updateTweets_body sink seeded el s))) \<and>
         (\<forall>b\<in>set (flushes (trace (snd (updateTweets_body sink seeded el s)))).
            tid \<notin> tweetId ` set b)"
proof -
  let ?s = "snd (updateTweets_body sink seeded el s)"
  have img: "\<And>ts. tweetId ` set ts = set (map tweetId ts)" by simp
  have f: "\<forall>b\<in>set (flushes (trace ?s)). tid \<notin> tweetId ` set b"
    using body_flushes [of sink seeded el s] assms(3,4) by auto
  from body_captured [of sink seeded el s]
  have "tid \<in> processedTweetIds ?s \<and> tid \<notin> set (captured (trace ?s)) \<and>
        tid \<notin> set (map tweetId (tweets ?s))"
  proof (elim disjE exE conjE)
    assume "captured (trace ?s) = captured (trace s)"
      and "processedTweetIds ?s = processedTweetIds s"
      and "map tweetId (tweets ?s) = map tweetId (tweets s)"
    with assms(1-3) show ?thesis unfolding img by (simp del: set_map)
  next
    fix new
    assume "new \<notin> processedTweetIds s"
      and "captured (trace ?s) = captured (trace s) @ [new]"
      and "processedTweetIds ?s = insert new (processedTweetIds s)"
      and "map tweetId (tweets ?s) = map tweetId (tweets s) @ [new]"
    with assms(1-3) show ?thesis unfolding img by (auto simp del: set_map)
  qed
  with f show ?thesis by simp
qed

lemma step_skipped:
  assumes "tid \<in> processedTweetIds s \<and> tid \<notin> set (captured (trace s)) \<and>
           tid \<notin> tweetId ` set (tweets s) \<and>
           (\<forall>b\<in>set (flushes (trace s)). tid \<notin> tweetId ` set b)"
  shows "tid \<in> processedTweetIds (step sink ev s) \<and> tid \<notin> set (captured (trace (step sink ev s))) \<and>
         tid \<notin> tweetId ` set (tweets (step sink ev s)) \<and>
         (\<forall>b\<in>set (flushes (trace (step sink ev s))). tid \<notin> tweetId ` set b)"
proof (rule step_invariant [where P = "\<lambda>s. tid \<in> processedTweetIds s \<and>
    tid \<notin> set (captured (trace s)) \<and> tid \<notin> tweetId ` set (tweets s) \<and>
    (\<forall>b\<in>set (flushes (trace s)). tid \<notin> tweetId ` set b)"])
  fix seeded el and s :: scraper
  assume "tid \<in> processedTweetIds s \<and> tid \<notin> set (captured (trace s)) \<and>
    tid \<notin> tweetId ` set (tweets s) \<and> (\<forall>b\<in>set (flushes (trace s)). tid \<notin> tweetId ` set b)"
  then show "tid \<in> processedTweetIds (snd (updateTweets_body sink seeded el s)) \<and>
         tid \<notin> set (captured (trace (snd (updateTweets_body sink seeded el s)))) \<and>
         tid \<notin> tweetId ` set (tweets (snd (updateTweets_body sink seeded el s))) \<and>
         (\<forall>b\<in>set (flushes (trace (snd (updateTweets_body sink seeded el s)))).
            tid \<notin> tweetId ` set b)"
    using body_skipped by blast
next
  fix h and s :: scraper
  assume "tid \<in> processedTweetIds s \<and> tid \<notin> set (captured (trace s)) \<and>
    tid \<notin> tweetId ` set (tweets s) \<and> (\<forall>b\<in>set (flushes (trace s)). tid \<notin> tweetId ` set b)"
  then show "tid \<in> processedTweetIds (scroll_tick sink h s) \<and>
    tid \<notin> set (captured (trace (scroll_tick sink h s))) \<and>
    tid \<notin> tweetId ` set (tweets (scroll_tick sink h s)) \<and>
    (\<forall>b\<in>set (flushes (trace (scroll_tick sink h s))). tid \<notin> tweetId ` set b)"
    using scroll_tick_captured(3) [of sink h s] scroll_tick_flushes [of sink h s]
    by (auto simp: scroll_tick_captured(1,2))
next
  fix s :: scraper
  assume "tid \<in> processedTweetIds s \<and> tid \<notin> set (captured (trace s)) \<and>
    tid \<notin> tweetId ` set (tweets s) \<and> (\<forall>b\<in>set (flushes (trace s)). tid \<notin> tweetId ` set b)"
  then show "tid \<in> processedTweetIds (cleanup sink s) \<and>
    tid \<notin> set (captured (trace (cleanup sink s))) \<and>
    tid \<notin> tweetId ` set (tweets (cleanup sink s)) \<and>
    (\<forall>b\<in>set (flushes (trace (cleanup sink s))). tid \<notin> tweetId ` set b)"
    using cleanup_flushes [of sink s] by (auto simp: cleanup_captured cleanup_fields)
qed (use assms in \<open>simp_all add: stash_captured stash_flushes\<close>)

text \<open>
  C9. An identifier given in \<open>skipTweetIds\<close> is never logged as captured, is never the
  identifier of a record of the pending batch and is in no batch handed to the export, at
  any point of any session.
\<close>

theorem skip_ids_never_captured:
  assumes "opt_skipTweetIds opts = Some ids" and "tid \<in> set ids"
  shows "tid \<notin> set (captured (trace (run sink evs (new_TweetScraper sink opts mm doc)))) \<and>
         tid \<notin> tweetId ` set (tweets (run sink evs (new_TweetScraper sink opts mm doc))) \<and>
         (\<forall>b\<in>set (flushes (trace (run sink evs (new_TweetScraper sink opts mm doc)))).
            tid \<notin> tweetId ` set b)"
proof -
  let ?K = "\<lambda>s. tid \<in> processedTweetIds s \<and> tid \<notin> set (captured (trace s)) \<and>
    tid \<notin> tweetId ` set (tweets s) \<and> (\<forall>b\<in>set (flushes (trace s)). tid \<notin> tweetId ` set b)"
  let ?base = "\<lparr>scrollIntervalMs = num_or (opt_scrollIntervalMs opts) 1000,
      scrollStep = js_num_or (opt_scrollStep opts) (Finite 800),
      batchSize = num_or (opt_batchSize opts) 100,
      stopAtTweetId = str_or_null (opt_stopAtTweetId opts),
      skipTweetIds = new_Set ids, tweets = [], processedTweetIds = set (new_Set ids),
      batchIndex = 0, stuckCount = 0, previousHeight = 0, mediaMap = mm,
      scrollTimer = True, observing = True, hudShown = True, trace = []\<rparr>"
  have "tid \<in> set (new_Set ids)"
    using assms(2) by (simp add: new_Set_def fold_set_add)
  then have "?K ?base" by simp
  then have "?K (step sink (FullScan doc) ?base)" by (rule step_skipped)
  moreover have "new_TweetScraper sink opts mm doc = step sink (FullScan doc) ?base"
    by (simp add: new_TweetScraper_def Let_def assms(1))
  ultimately have "?K (new_TweetScraper sink opts mm doc)" by simp
  then have "?K (run sink evs (new_TweetScraper sink opts mm doc))"
    by (rule run_invariant [where P = ?K, rotated]) (rule step_skipped)
  then show ?thesis by simp
qed

theorem skip_ids_never_captured_witness:
  "opt_skipTweetIds skip_options = Some [''42''] \<and> ''42'' \<in> set [''42''] \<and>
   extractTweetId demo_article = Some ''42'' \<and>
   captured (trace (run (\<lambda>b. True) [Mutated demo_article, Tick 5]
     (new_TweetScraper (\<lambda>b. True) skip_options Map.empty [demo_article, other_article]))) = [''43''] \<and>
   tweets (run (\<lambda>b. True) [Mutated demo_article, Tick 5]
     (new_TweetScraper (\<lambda>b. True) skip_options Map.empty [demo_article, other_article])) = [] \<and>
   flushes (trace (run (\<lambda>b. True) [Mutated demo_article, Tick 5]
     (new_TweetScraper (\<lambda>b. True) skip_options Map.empty [demo_article, other_article]))) =
     [[other_tweet]] \<and>
   tweetId other_tweet = ''43''"
  using skip_ids_never_captured [of skip_options "[''42'']" "''42''" "\<lambda>b. True"
      "[Mutated demo_article, Tick 5]" Map.empty "[demo_article, other_article]"]
  by (simp add: skip_options_def demo_id other_id other_data run_def new_TweetScraper_def
      updateTweets_def updateTweets_body_def new_Set_def set_add_def num_or_def js_num_or_def str_or_null_def
      scroll_tick_def downloadTweetsAsJson_def Let_def)
     (simp add: other_tweet_def)

subsection \<open>Late media\<close>

text \<open>
  The late-media branch never overwrites a media field that is not empty, and a request
  leaves the pending batch alone.
\<close>

lemma late_media_keeps:
  "images t \<noteq> [] \<Longrightarrow> images (late_media m t) = images t"
  "videos t \<noteq> [] \<Longrightarrow> videos (late_media m t) = videos t"
  "tweets (on_request url s) = tweets s"
  by (simp_all add: late_media_def Let_def on_request_def stash_captured)

text \<open>
  C2, first part, on the example: the article is captured while nothing has been
  intercepted, so its videos are empty; then the request for the video with the media
  identifier of its thumbnail is stashed; then the observer reprocesses the article. The
  late-media branch reads \<open>extractMedia\<close> alone, which knows the videos in the markup and
  not the map of intercepted requests: the videos of the record stay empty. Had the request
  come before the construction, \<open>extractTweetData\<close> would have put its URL in the record.
\<close>

theorem late_capture_not_reconciled:
  "map videos (tweets (run (\<lambda>b. True)
     [Request ''video.twimg.com/ext_tw_video/7/v.mp4'', Mutated demo_article]
     (new_TweetScraper (\<lambda>b. True) demo_options Map.empty [demo_article]))) = [[]] \<and>
   mediaMap (run (\<lambda>b. True)
     [Request ''video.twimg.com/ext_tw_video/7/v.mp4'', Mutated demo_article]
     (new_TweetScraper (\<lambda>b. True) demo_options Map.empty [demo_article])) ''7'' =
     Some [''video.twimg.com/ext_tw_video/7/v.mp4''] \<and>
   match_media_id ''ext_tw_video_thumb/'' ''pbs.twimg.com/ext_tw_video_thumb/7/pu/a.jpg'' = Some ''7'' \<and>
   m_thumbnails (extractMedia demo_article) = [''pbs.twimg.com/ext_tw_video_thumb/7/pu/a.jpg''] \<and>
   map videos (tweets (new_TweetScraper (\<lambda>b. True) demo_options
     [''7'' \<mapsto> [''video.twimg.com/ext_tw_video/7/v.mp4'']] [demo_article])) =
     [[''video.twimg.com/ext_tw_video/7/v.mp4'']]"
  by (simp add: run_def demo_session demo_scraper_def on_request_def stash_def
      digits_slash_def is_digit_def get_or_empty_def updateTweets_def updateTweets_body_def
      demo_id demo_media late_media_def demo_tweet_def new_TweetScraper_def demo_options_def
      extractTweetData_def demo_fields demo_url correlate_def set_add_def new_Set_def
      num_or_def js_num_or_def str_or_null_def Let_def)

end
